theory Spec2Isabelle
  imports Complex_Main "HOL-Library.Multiset"
begin

section \<open>Event search and visualisation driver (visualize\_storm.py)\<close>

text \<open>
  The development embeds the two functions of \<^verbatim>\<open>visualize_storm.py\<close>, \<^verbatim>\<open>search_events\<close>
  and \<^verbatim>\<open>main\<close>. Exceptions are values of a sum type (\<open>Inl\<close> is the raised exception),
  console output, figures and files written are an explicit world that is passed through,
  and the functions of the imported module \<^verbatim>\<open>lib_search_dispersion\<close> enter the driver
  as a record of functions.
\<close>

subsection \<open>Data model\<close>

text \<open>The exceptions that occur in the driver and in the detection engine.\<close>

datatype exn = CDFError | OutOfRangeError | IndexError | TypeError | ValueError

text \<open>
  One row of the match table: the five columns produced by \<^verbatim>\<open>walk_and_integrate\<close>.
  Timestamps are integers (ticks of the instrument clock).
\<close>

record match_record =
  start_time :: int
  end_time :: int
  Bx_mean :: real
  By_mean :: real
  Bz_mean :: real

text \<open>
  A pandas DataFrame of matches. The optional column \<^verbatim>\<open>'file'\<close> is present when
  \<open>has_file\<close> holds; a row of a frame without the column, or a row that comes from such a
  frame in a concatenation, has no value there (pandas shows NaN), which is \<open>None\<close>.
\<close>

record df_row =
  row_rec :: match_record
  file_val :: "string option"

record dataframe =
  has_file :: bool
  df_rows :: "df_row list"

text \<open>The loaded spectrogram file, \<^verbatim>\<open>dmsp_fh\<close>: a dictionary of aligned arrays.\<close>

record dmsp_fh =
  fh_t :: "int list"
  fh_mlat :: "real list"
  fh_ch_energy :: "real list"
  fh_ion_d_ener :: "real list list"
  fh_char_energy :: "real list"

text \<open>The loaded field record, \<^verbatim>\<open>omniweb_fh\<close>: timestamped field vectors.\<close>

record field_sample =
  fs_t :: int
  fs_Bx :: real
  fs_By :: real
  fs_Bz :: real

type_synonym omniweb_fh = "field_sample list"

text \<open>
  The module \<^verbatim>\<open>lib_search_dispersion\<close> as the driver uses it: four functions and two
  constants. Each function either raises or returns.
\<close>

record lib =
  read_omniweb_files :: "string list \<Rightarrow> exn + omniweb_fh"
  read_dmsp_file :: "string \<Rightarrow> exn + dmsp_fh"
  estimate_log_Eic_smooth_derivative :: "dmsp_fh \<Rightarrow> exn + (real list \<times> real list)"
  walk_and_integrate ::
    "dmsp_fh \<Rightarrow> omniweb_fh \<Rightarrow> real list \<Rightarrow> real list \<Rightarrow> int \<Rightarrow> bool
      \<Rightarrow> exn + (match_record list \<times> real list)"
  INTERVAL_LENGTH :: int
  MAX_ENERGY_ANALYZED :: real

text \<open>The case file, after \<^verbatim>\<open>json.load\<close>.\<close>

record case_file =
  DMSP_FILES :: "string list"
  OMNIWEB_FILES :: "string list"
  PLOT_OUTPUT :: string
  EVENT_OUTPUT :: string
  REVERSE_EFFECT :: bool

text \<open>
  What a run does to the outside: lines on the console, figures opened, plots saved and
  the CSV file written, in the order in which they happen. A saved plot is named by the
  output folder, the base name of the DMSP file and the two times of the match.
\<close>

datatype event =
    Print_processing nat nat string
  | Fig_opened int int
  | Makedirs string
  | Plot_saved string string int int
  | Print_wrote_plot string string int int
  | Print_discovered
  | Print_table dataframe
  | Print_writing nat string
  | Csv_written string dataframe

record world =
  events :: "event list"
  open_figures :: nat

definition emit :: "event list \<Rightarrow> world \<Rightarrow> world" where
  "emit es w = w\<lparr>events := events w @ es\<rparr>"

fun csv_of :: "event \<Rightarrow> (string \<times> dataframe) list" where
  "csv_of (Csv_written p df) = [(p, df)]"
| "csv_of _ = []"

definition csv_written :: "world \<Rightarrow> (string \<times> dataframe) list" where
  "csv_written w = concat (map csv_of (events w))"

fun table_of :: "event \<Rightarrow> dataframe list" where
  "table_of (Print_table df) = [df]"
| "table_of _ = []"

definition tables_printed :: "world \<Rightarrow> dataframe list" where
  "tables_printed w = concat (map table_of (events w))"

subsection \<open>The plot window of a match (lines 96 to 101)\<close>

text \<open>
  \<^verbatim>\<open>t.searchsorted(v)\<close> on a sorted array: the first index whose element is not less
  than \<open>v\<close>, the length when there is none.
\<close>

definition searchsorted :: "int list \<Rightarrow> int \<Rightarrow> nat" where
  "searchsorted ts v = length (takeWhile (\<lambda>x. x < v) ts)"

text \<open>\<^verbatim>\<open>int(0.50 * d)\<close>: half of \<open>d\<close>, rounded towards zero.\<close>

definition half_trunc :: "int \<Rightarrow> int" where
  "half_trunc d = (if 0 \<le> d then d div 2 else - ((- d) div 2))"

definition plot_window :: "int list \<Rightarrow> int \<Rightarrow> int \<Rightarrow> int \<times> int" where
  "plot_window ts st en =
     (let i = int (searchsorted ts st);
          j = int (searchsorted ts en);
          delta_index = half_trunc (j - i)
      in (max (i - delta_index) 0, min (j + delta_index) (int (length ts) - 1)))"

text \<open>
  Reading element \<open>i\<close> of an array of length \<open>n\<close> in Python: indices from \<open>-n\<close> to
  \<open>n - 1\<close> are accepted, a negative one counts from the end, any other raises IndexError.
\<close>

definition py_index :: "'a list \<Rightarrow> int \<Rightarrow> exn + 'a" where
  "py_index xs i =
     (let n = int (length xs) in
      if 0 \<le> i \<and> i < n then Inr (xs ! nat i)
      else if - n \<le> i \<and> i < 0 then Inr (xs ! nat (n + i))
      else Inl IndexError)"

subsection \<open>search\_events\<close>

text \<open>\<^verbatim>\<open>os.path.basename\<close>: what follows the last slash.\<close>

definition basename :: "string \<Rightarrow> string" where
  "basename p = rev (takeWhile (\<lambda>c. c \<noteq> CHR ''/'') (rev p))"

text \<open>The table returned by \<^verbatim>\<open>walk_and_integrate\<close>, which has no \<^verbatim>\<open>'file'\<close> column.\<close>

definition frame_of :: "match_record list \<Rightarrow> dataframe" where
  "frame_of ms = \<lparr>has_file = False, df_rows = map (\<lambda>m. \<lparr>row_rec = m, file_val = None\<rparr>) ms\<rparr>"

text \<open>\<^verbatim>\<open>df_match['file'] = dmsp_file\<close>: the column is set to one value in every row.\<close>

definition assign_file :: "string \<Rightarrow> dataframe \<Rightarrow> dataframe" where
  "assign_file f df =
     \<lparr>has_file = True, df_rows = map (\<lambda>r. r\<lparr>file_val := Some f\<rparr>) (df_rows df)\<rparr>"

text \<open>
  The plotting loop (lines 95 to 152), one call per row of the table as it was when the
  loop started. A figure is opened for every row; the title reads \<^verbatim>\<open>mlat[i]\<close> and
  \<^verbatim>\<open>mlat[j]\<close>, which may raise; only with plotting enabled is the figure saved and closed
  and the \<^verbatim>\<open>'file'\<close> column assigned. With plotting enabled and no output folder the
  string concatenation raises TypeError. Rendering itself is taken not to fail.
\<close>

fun plot_rows ::
  "dmsp_fh \<Rightarrow> string \<Rightarrow> string option \<Rightarrow> bool \<Rightarrow> match_record list \<Rightarrow> dataframe \<Rightarrow> world
    \<Rightarrow> (exn + dataframe) \<times> world" where
  "plot_rows fh dmsp_file outfolder no_plots [] df w = (Inr df, w)"
| "plot_rows fh dmsp_file outfolder no_plots (row_match # rest) df w =
     (let (i, j) = plot_window (fh_t fh) (start_time row_match) (end_time row_match);
          w1 = emit [Fig_opened i j] (w\<lparr>open_figures := open_figures w + 1\<rparr>)
      in case py_index (fh_mlat fh) i of
           Inl e \<Rightarrow> (Inl e, w1)
         | Inr _ \<Rightarrow>
            (case py_index (fh_mlat fh) j of
               Inl e \<Rightarrow> (Inl e, w1)
             | Inr _ \<Rightarrow>
                if no_plots then plot_rows fh dmsp_file outfolder no_plots rest df w1
                else
                  (case outfolder of
                     None \<Rightarrow> (Inl TypeError, w1)
                   | Some folder \<Rightarrow>
                      plot_rows fh dmsp_file outfolder no_plots rest (assign_file dmsp_file df)
                        (emit [Makedirs folder,
                               Plot_saved folder (basename dmsp_file)
                                 (start_time row_match) (end_time row_match),
                               Print_wrote_plot folder (basename dmsp_file)
                                 (start_time row_match) (end_time row_match)]
                           (w1\<lparr>open_figures := open_figures w1 - 1\<rparr>)))))"

text \<open>
  The computation of lines 80 to 92. A \<^verbatim>\<open>pycdf.CDFError\<close> of \<^verbatim>\<open>read_dmsp_file\<close> is
  caught and gives \<open>Inr None\<close> (the bare \<^verbatim>\<open>return\<close>); every other exception goes on to
  the caller.
\<close>

definition compute_matches ::
  "lib \<Rightarrow> string \<Rightarrow> omniweb_fh \<Rightarrow> bool \<Rightarrow> exn + (dmsp_fh \<times> match_record list \<times> real list) option" where
  "compute_matches L dmsp_file omniweb reverse_effect =
     (case read_dmsp_file L dmsp_file of
        Inl e \<Rightarrow> (if e = CDFError then Inr None else Inl e)
      | Inr fh \<Rightarrow>
         (case estimate_log_Eic_smooth_derivative L fh of
            Inl e \<Rightarrow> Inl e
          | Inr (dEicdt_smooth, Eic) \<Rightarrow>
             (case walk_and_integrate L fh omniweb dEicdt_smooth Eic (INTERVAL_LENGTH L)
                     reverse_effect of
                Inl e \<Rightarrow> Inl e
              | Inr (df_match, integrand) \<Rightarrow> Inr (Some (fh, df_match, integrand)))))"

definition search_events ::
  "lib \<Rightarrow> string \<Rightarrow> omniweb_fh \<Rightarrow> string option \<Rightarrow> bool \<Rightarrow> bool \<Rightarrow> world
    \<Rightarrow> (exn + dataframe option) \<times> world" where
  "search_events L dmsp_file omniweb outfolder no_plots reverse_effect w =
     (case compute_matches L dmsp_file omniweb reverse_effect of
        Inl e \<Rightarrow> (Inl e, w)
      | Inr None \<Rightarrow> (Inr None, w)
      | Inr (Some (fh, df_match, integrand)) \<Rightarrow>
         (case plot_rows fh dmsp_file outfolder no_plots df_match (frame_of df_match) w of
            (Inl e, w') \<Rightarrow> (Inl e, w')
          | (Inr df, w') \<Rightarrow> (Inr (Some df), w')))"

subsection \<open>main\<close>

text \<open>
  \<^verbatim>\<open>pd.concat\<close> of a list of frames: an empty list raises ValueError, \<open>None\<close> entries
  are dropped, a list of only \<open>None\<close> raises ValueError; otherwise the rows follow one
  another and the columns are the union of the frames' columns.
\<close>

fun frames_of :: "dataframe option list \<Rightarrow> dataframe list" where
  "frames_of [] = []"
| "frames_of (None # xs) = frames_of xs"
| "frames_of (Some df # xs) = df # frames_of xs"

definition pd_concat :: "dataframe option list \<Rightarrow> exn + dataframe" where
  "pd_concat objs =
     (if frames_of objs = [] then Inl ValueError
      else Inr \<lparr>has_file = list_ex has_file (frames_of objs),
                df_rows = concat (map df_rows (frames_of objs))\<rparr>)"

text \<open>
  \<^verbatim>\<open>sort_values('start_time')\<close>. The library does not fix the order of rows with equal
  keys; the model keeps them in their order, and no theorem below depends on it.
\<close>

definition sort_values_start_time :: "dataframe \<Rightarrow> dataframe" where
  "sort_values_start_time df =
     df\<lparr>df_rows := sort_key (\<lambda>r. start_time (row_rec r)) (df_rows df)\<rparr>"

text \<open>The loop of lines 42 to 52; \<open>i\<close> counts the files done, \<open>df_matches\<close> is the list so far.\<close>

fun file_loop ::
  "lib \<Rightarrow> case_file \<Rightarrow> bool \<Rightarrow> omniweb_fh \<Rightarrow> nat \<Rightarrow> string list \<Rightarrow> dataframe option list \<Rightarrow> world
    \<Rightarrow> (exn + dataframe option list) \<times> world" where
  "file_loop L cf no_plot omniweb i [] df_matches w = (Inr df_matches, w)"
| "file_loop L cf no_plot omniweb i (dmsp_file # rest) df_matches w =
     (case search_events L dmsp_file omniweb (Some (PLOT_OUTPUT cf)) no_plot (REVERSE_EFFECT cf)
             (emit [Print_processing (i + 1) (length (DMSP_FILES cf)) dmsp_file] w) of
        (Inl e, w') \<Rightarrow> (Inl e, w')
      | (Inr df_match, w') \<Rightarrow>
          file_loop L cf no_plot omniweb (i + 1) rest (df_matches @ [df_match]) w')"

text \<open>
  \<^verbatim>\<open>main\<close>, from the loaded case file on (lines 36 to 62). The result is \<open>Inr ()\<close> when
  the function returns and \<open>Inl e\<close> when it ends with the exception \<open>e\<close>.
\<close>

definition main :: "lib \<Rightarrow> case_file \<Rightarrow> bool \<Rightarrow> world \<Rightarrow> (exn + unit) \<times> world" where
  "main L cf no_plot w =
     (case read_omniweb_files L (OMNIWEB_FILES cf) of
        Inl e \<Rightarrow> (Inl e, w)
      | Inr omniweb \<Rightarrow>
         (case file_loop L cf no_plot omniweb 0 (DMSP_FILES cf) [] w of
            (Inl e, w') \<Rightarrow> (Inl e, w')
          | (Inr df_matches, w') \<Rightarrow>
             (case pd_concat df_matches of
                Inl e \<Rightarrow> (Inl e, w')
              | Inr d \<Rightarrow>
                 (let df = sort_values_start_time d in
                  (Inr (),
                   emit [Print_discovered, Print_table df,
                         Print_writing (length (df_rows df)) (EVENT_OUTPUT cf),
                         Csv_written (EVENT_OUTPUT cf) df] w')))))"

section \<open>The detection engine\<close>

text \<open>
  The module \<^verbatim>\<open>lib_search_dispersion\<close> is not among the sources. Where a property
  depends on what its functions compute, they are modelled from the specification
  (sections 3, 4 and 7), with every constant that the specification leaves open as a
  field of a configuration.
\<close>

text \<open>Modelled from the spec: the polarity of a run (section 3), fixed by \<^verbatim>\<open>reverse_effect\<close>.\<close>

datatype polarity = Forward | Reverse

definition polarity_of :: "bool \<Rightarrow> polarity" where
  "polarity_of reverse_effect = (if reverse_effect then Reverse else Forward)"

text \<open>
  Modelled from the spec: the sign convention of a polarity, used for the direction in
  which thresholds are crossed (sections 3 and 4.4).
\<close>

definition direction :: "polarity \<Rightarrow> real" where
  "direction p = (case p of Forward \<Rightarrow> 1 | Reverse \<Rightarrow> - 1)"

text \<open>
  Modelled from the spec: the tunable constants of the engine (sections 4.2 to 4.4 and the
  open question of section 9): the width of the smoothing window, the logarithmic
  transform and the smoothing kernel of the derivative estimator, the condition on the
  field vector that the forward polarity asks for, the entry threshold, the exit level
  and the number of samples for which it must hold, and the two acceptance thresholds.
\<close>

record engine_config =
  smoothing_window :: nat
  log_energy :: "real \<Rightarrow> real"
  smooth_derivative :: "int list \<Rightarrow> real list \<Rightarrow> real list"
  forward_condition :: "real \<times> real \<times> real \<Rightarrow> bool"
  entry_threshold :: real
  exit_level :: real
  exit_sustain :: nat
  min_duration :: int
  min_magnitude :: real

text \<open>
  A field vector, a field sample and the means of a match record with all signs flipped.
\<close>

definition flip_vector :: "real \<times> real \<times> real \<Rightarrow> real \<times> real \<times> real" where
  "flip_vector B = (case B of (bx, by, bz) \<Rightarrow> (- bx, - by, - bz))"

definition flip_sample :: "field_sample \<Rightarrow> field_sample" where
  "flip_sample s = \<lparr>fs_t = fs_t s, fs_Bx = - fs_Bx s, fs_By = - fs_By s, fs_Bz = - fs_Bz s\<rparr>"


text \<open>Modelled from the spec: the field vector \<open>(Bx, By, Bz)\<close> of a sample (section 3).\<close>

definition field_vector :: "field_sample \<Rightarrow> real \<times> real \<times> real" where
  "field_vector s = (fs_Bx s, fs_By s, fs_Bz s)"

text \<open>
  Modelled from the spec: the polarity condition on the field (sections 3 and 4.3). The
  reverse polarity asks of the field what the forward polarity asks of the opposite
  field.
\<close>

definition polarity_condition :: "engine_config \<Rightarrow> polarity \<Rightarrow> real \<times> real \<times> real \<Rightarrow> bool" where
  "polarity_condition c p B =
     forward_condition c (case p of Forward \<Rightarrow> B | Reverse \<Rightarrow> flip_vector B)"

text \<open>
  Modelled from the spec: the nearest-neighbour lookup of \<^verbatim>\<open>FieldContext.field_at\<close>
  (section 4.1): of the samples seen so far the one nearest in time to \<open>t\<close>, the
  earlier one of two equally near.
\<close>

fun nearest :: "field_sample \<Rightarrow> field_sample list \<Rightarrow> int \<Rightarrow> field_sample" where
  "nearest best [] t = best"
| "nearest best (s # ss) t =
     nearest (if \<bar>fs_t s - t\<bar> < \<bar>fs_t best - t\<bar> then s else best) ss t"

text \<open>
  Modelled from the spec: \<^verbatim>\<open>FieldContext.field_at\<close> (section 4.1), the field vector of the
  sample nearest in time, and OutOfRangeError outside the time span of the record.
\<close>

definition field_at :: "omniweb_fh \<Rightarrow> int \<Rightarrow> exn + real \<times> real \<times> real" where
  "field_at om t =
     (case om of
        [] \<Rightarrow> Inl OutOfRangeError
      | s # ss \<Rightarrow>
         if t < fs_t s \<or> fs_t (last om) < t then Inl OutOfRangeError
         else Inr (field_vector (nearest s ss t)))"

text \<open>
  Modelled from the spec: \<^verbatim>\<open>FieldContext.mean_over\<close> (section 4.1), the arithmetic mean
  of the samples with a timestamp in \<open>[a, b]\<close>, and the single-point estimate at the
  midpoint when there is none.
\<close>

definition mean_over :: "omniweb_fh \<Rightarrow> int \<Rightarrow> int \<Rightarrow> exn + real \<times> real \<times> real" where
  "mean_over om a b =
     (let ss = filter (\<lambda>s. a \<le> fs_t s \<and> fs_t s \<le> b) om in
      if ss = [] then field_at om ((a + b) div 2)
      else Inr (sum_list (map fs_Bx ss) / real (length ss),
                sum_list (map fs_By ss) / real (length ss),
                sum_list (map fs_Bz ss) / real (length ss)))"

text \<open>
  Modelled from the spec: the derivative estimator (section 4.2), in place of
  \<^verbatim>\<open>estimate_log_Eic_smooth_derivative\<close>. The characteristic energies are transformed
  to the logarithmic scale; a series with fewer samples than the smoothing window has
  an empty derivative series, any other is smoothed by the kernel.
\<close>

definition estimate_spec :: "engine_config \<Rightarrow> dmsp_fh \<Rightarrow> exn + (real list \<times> real list)" where
  "estimate_spec c fh =
     (let Eic = map (log_energy c) (fh_char_energy fh) in
      if length (fh_char_energy fh) < smoothing_window c then Inr ([], Eic)
      else Inr (smooth_derivative c (fh_t fh) Eic, Eic))"

text \<open>
  Modelled from the spec: the integrand builder (section 4.3). At a timestep of the
  derivative series the integrand is the derivative when the field near that time
  satisfies the polarity condition and the characteristic energy is not above the
  cutoff, and zero otherwise. The field lookup may raise OutOfRangeError.
\<close>

fun build_integrand ::
  "engine_config \<Rightarrow> real \<Rightarrow> polarity \<Rightarrow> omniweb_fh \<Rightarrow> (int \<times> real \<times> real) list \<Rightarrow> exn + real list" where
  "build_integrand c emax p om [] = Inr []"
| "build_integrand c emax p om ((t, d, e) # rest) =
     (case field_at om t of
        Inl x \<Rightarrow> Inl x
      | Inr B \<Rightarrow>
         (case build_integrand c emax p om rest of
            Inl x \<Rightarrow> Inl x
          | Inr vs \<Rightarrow>
             Inr ((if polarity_condition c p B \<and> e \<le> log_energy c emax then d else 0) # vs)))"

text \<open>
  Modelled from the spec: the states of the event walker (section 4.4). An open interval
  carries its start index, the timestamp there, the running integral and the number of
  consecutive samples at which the exit condition has held.
\<close>

datatype walker_state = IDLE | ACCUMULATING nat int real nat

text \<open>
  Modelled from the spec: the acceptance filter applied when an interval closes
  (sections 3 and 4.4). An interval of zero duration, one shorter than the minimum
  duration and one whose integral does not exceed the minimum magnitude are dropped.
\<close>

definition close_interval ::
  "engine_config \<Rightarrow> nat \<Rightarrow> nat \<Rightarrow> int \<Rightarrow> int \<Rightarrow> real \<Rightarrow> (nat \<times> nat) list" where
  "close_interval c s e ts te I =
     (if e = s then []
      else if te - ts < min_duration c \<or> \<bar>I\<bar> \<le> min_magnitude c then []
      else [(s, e)])"

text \<open>
  Modelled from the spec: the event walker (section 4.4), one pass from left to right
  over the samples of the integrand; \<open>k\<close> is the index of the next sample and \<open>prev\<close>
  the timestamp of the one before. A sample contributes its value times the time
  elapsed since the sample before. The result is the list of accepted intervals, by
  index.
\<close>

fun walk ::
  "engine_config \<Rightarrow> int \<Rightarrow> polarity \<Rightarrow> walker_state \<Rightarrow> nat \<Rightarrow> int \<Rightarrow> (int \<times> real) list
    \<Rightarrow> (nat \<times> nat) list" where
  "walk c maxlen p IDLE k prev [] = []"
| "walk c maxlen p (ACCUMULATING s ts I n) k prev [] = close_interval c s (k - 1) ts prev I"
| "walk c maxlen p IDLE k prev ((t, v) # rest) =
     (if entry_threshold c < direction p * v
      then walk c maxlen p (ACCUMULATING k t (v * real_of_int (t - prev)) 0) (Suc k) t rest
      else walk c maxlen p IDLE (Suc k) t rest)"
| "walk c maxlen p (ACCUMULATING s ts I n) k prev ((t, v) # rest) =
     (let I' = I + v * real_of_int (t - prev);
          n' = (if direction p * I' \<le> exit_level c then Suc n else 0)
      in if (n' \<noteq> 0 \<and> exit_sustain c \<le> n') \<or> maxlen \<le> t - ts
         then close_interval c s k ts t I' @ walk c maxlen p IDLE (Suc k) t rest
         else walk c maxlen p (ACCUMULATING s ts I' n') (Suc k) t rest)"

text \<open>
  Modelled from the spec: the walk over a whole series (section 4.4), which starts in
  \<open>IDLE\<close> at the first sample; an empty series has no interval.
\<close>

definition walk_series :: "engine_config \<Rightarrow> int \<Rightarrow> polarity \<Rightarrow> (int \<times> real) list \<Rightarrow> (nat \<times> nat) list" where
  "walk_series c maxlen p xs =
     (case xs of [] \<Rightarrow> [] | (t0, v0) # rest \<Rightarrow> walk c maxlen p IDLE 0 t0 xs)"

text \<open>
  Modelled from the spec: the match summarizer (section 4.5). The times of a record are
  the timestamps at the bounds of the interval, its means those of the field over that
  span; an OutOfRangeError of the field context goes on to the caller.
\<close>

definition summarize :: "omniweb_fh \<Rightarrow> int list \<Rightarrow> nat \<times> nat \<Rightarrow> exn + match_record" where
  "summarize om ts iv =
     (case mean_over om (ts ! fst iv) (ts ! snd iv) of
        Inl x \<Rightarrow> Inl x
      | Inr (bx, by, bz) \<Rightarrow>
         Inr \<lparr>start_time = ts ! fst iv, end_time = ts ! snd iv,
              Bx_mean = bx, By_mean = by, Bz_mean = bz\<rparr>)"

text \<open>
  Modelled from the spec: the summarizer over the accepted intervals of a file, in their
  order (sections 2 and 4.5); the first OutOfRangeError ends it.
\<close>

fun summarize_all :: "omniweb_fh \<Rightarrow> int list \<Rightarrow> (nat \<times> nat) list \<Rightarrow> exn + match_record list" where
  "summarize_all om ts [] = Inr []"
| "summarize_all om ts (iv # ivs) =
     (case summarize om ts iv of
        Inl x \<Rightarrow> Inl x
      | Inr m \<Rightarrow>
         (case summarize_all om ts ivs of
            Inl x \<Rightarrow> Inl x
          | Inr ms \<Rightarrow> Inr (m # ms)))"

text \<open>
  Modelled from the spec: the pipeline of sections 2 and 4.3 to 4.5 in place of
  \<^verbatim>\<open>walk_and_integrate\<close>: integrand, walk, summary. It returns the match records of the
  file and the integrand series.
\<close>

definition walk_and_integrate_spec ::
  "engine_config \<Rightarrow> real \<Rightarrow> dmsp_fh \<Rightarrow> omniweb_fh \<Rightarrow> real list \<Rightarrow> real list \<Rightarrow> int \<Rightarrow> bool
    \<Rightarrow> exn + (match_record list \<times> real list)" where
  "walk_and_integrate_spec c emax fh om dEicdt_smooth Eic interval_length reverse_effect =
     (case build_integrand c emax (polarity_of reverse_effect) om
             (zip (fh_t fh) (zip dEicdt_smooth Eic)) of
        Inl x \<Rightarrow> Inl x
      | Inr integrand \<Rightarrow>
         (case summarize_all om (fh_t fh)
                 (walk_series c interval_length (polarity_of reverse_effect)
                    (zip (fh_t fh) integrand)) of
            Inl x \<Rightarrow> Inl x
          | Inr ms \<Rightarrow> Inr (ms, integrand)))"

text \<open>
  Modelled from the spec: the module as a whole, from a configuration, the two run-level
  constants (section 6) and the two loaders, which stay parameters.
\<close>

definition engine_lib ::
  "engine_config \<Rightarrow> int \<Rightarrow> real \<Rightarrow> (string \<Rightarrow> exn + dmsp_fh) \<Rightarrow> (string list \<Rightarrow> exn + omniweb_fh) \<Rightarrow> lib" where
  "engine_lib c len emax rd ro =
     \<lparr>read_omniweb_files = ro, read_dmsp_file = rd,
      estimate_log_Eic_smooth_derivative = estimate_spec c,
      walk_and_integrate = walk_and_integrate_spec c emax,
      INTERVAL_LENGTH = len, MAX_ENERGY_ANALYZED = emax\<rparr>"

text \<open>
  Intervals by index that lie between \<open>lo\<close> and \<open>hi\<close>, each of positive length, each
  one ending before the next one starts.
\<close>

definition intervals_within :: "nat \<Rightarrow> nat \<Rightarrow> (nat \<times> nat) list \<Rightarrow> bool" where
  "intervals_within lo hi ivs \<longleftrightarrow>
     sorted_wrt (\<lambda>a b. snd a < fst b) ivs
     \<and> list_all (\<lambda>iv. lo \<le> fst iv \<and> fst iv < snd iv \<and> snd iv < hi) ivs"



section \<open>Concrete inputs\<close>

text \<open>
  A file of eight samples, ten ticks apart, whose characteristic energy rises twice, a
  field record of constant field over the same span and one over a later span, and a
  match from tick 15 to tick 35.
\<close>

definition fh_demo :: dmsp_fh where
  "fh_demo = \<lparr>fh_t = [0, 10, 20, 30, 40, 50, 60, 70],
     fh_mlat = [60, 61, 62, 63, 64, 65, 66, 67],
     fh_ch_energy = [], fh_ion_d_ener = [],
     fh_char_energy = [1, 10, 10, 10, 1, 10, 10, 10]\<rparr>"

definition fh_short :: dmsp_fh where
  "fh_short = \<lparr>fh_t = [0], fh_mlat = [60], fh_ch_energy = [], fh_ion_d_ener = [],
     fh_char_energy = [1]\<rparr>"

definition row_demo :: match_record where
  "row_demo = \<lparr>start_time = 15, end_time = 35, Bx_mean = 5, By_mean = - 2, Bz_mean = - 8\<rparr>"

definition sample_demo :: "int \<Rightarrow> field_sample" where
  "sample_demo t = \<lparr>fs_t = t, fs_Bx = 5, fs_By = - 2, fs_Bz = - 8\<rparr>"

definition om_demo :: omniweb_fh where
  "om_demo = map sample_demo [0, 10, 20, 30, 40, 50, 60, 70]"


text \<open>The derivative series of the file above, and the two matches found in it.\<close>

definition ms_demo :: "match_record list" where
  "ms_demo = [\<lparr>start_time = 0, end_time = 20, Bx_mean = 5, By_mean = - 2, Bz_mean = - 8\<rparr>,
              \<lparr>start_time = 50, end_time = 70, Bx_mean = 5, By_mean = - 2, Bz_mean = - 8\<rparr>]"

definition d_demo :: "real list" where
  "d_demo = [1 / 10, 1 / 10, 0, 0, - (1 / 10), 1 / 10, 0, 0]"

text \<open>
  A configuration: a window of two samples, the decimal logarithm, the difference
  quotient of neighbouring samples as kernel (the first one repeated at the edge), and a
  forward polarity that asks for a negative third field component.
\<close>

fun first_differences :: "int list \<Rightarrow> real list \<Rightarrow> real list" where
  "first_differences (t0 # t1 # ts) (x0 # x1 # xs) =
     (x1 - x0) / real_of_int (t1 - t0) # first_differences (t1 # ts) (x1 # xs)"
| "first_differences _ _ = []"

definition difference_kernel :: "int list \<Rightarrow> real list \<Rightarrow> real list" where
  "difference_kernel ts xs = (case first_differences ts xs of [] \<Rightarrow> [] | d # ds \<Rightarrow> d # d # ds)"

definition config_demo :: engine_config where
  "config_demo =
     \<lparr>smoothing_window = 2, log_energy = log 10, smooth_derivative = difference_kernel,
      forward_condition = (\<lambda>B. case B of (bx, by, bz) \<Rightarrow> bz < 0),
      entry_threshold = 1 / 20, exit_level = 0, exit_sustain = 1,
      min_duration = 10, min_magnitude = 1 / 2\<rparr>"

text \<open>
  The module with that configuration, an interval length of 20 ticks and a cutoff of 10;
  the file \<^verbatim>\<open>a.cdf\<close> loads as the file above, \<^verbatim>\<open>s.cdf\<close> as the file of one sample and any other
  path raises \<^verbatim>\<open>CDFError\<close>.
\<close>

definition read_demo :: "string \<Rightarrow> exn + dmsp_fh" where
  "read_demo p = (if p = ''a.cdf'' then Inr fh_demo else if p = ''s.cdf'' then Inr fh_short
     else Inl CDFError)"

definition lib_demo :: "omniweb_fh \<Rightarrow> lib" where
  "lib_demo om = engine_lib config_demo 20 10 read_demo (\<lambda>fs. Inr om)"

definition case_demo :: "string list \<Rightarrow> case_file" where
  "case_demo fs = \<lparr>DMSP_FILES = fs, OMNIWEB_FILES = [''omni.cdf''], PLOT_OUTPUT = ''plots'',
     EVENT_OUTPUT = ''events.csv'', REVERSE_EFFECT = False\<rparr>"

definition world_demo :: world where
  "world_demo = \<lparr>events = [], open_figures = 0\<rparr>"

section \<open>Properties of the driver\<close>

subsection \<open>Results do not depend on the world; outputs are written by main only\<close>

lemma plot_rows_result_indep:
  "fst (plot_rows fh f out np rows df w1) = fst (plot_rows fh f out np rows df w2)"
proof (induction rows arbitrary: df w1 w2)
  case Nil
  show ?case by simp
next
  case (Cons r rows)
  show ?case
    using Cons.IH
    by (auto simp: Let_def split: prod.splits sum.splits option.splits)
qed

lemma assign_file_idem: "assign_file f (assign_file f df) = assign_file f df"
  by (simp add: assign_file_def)

lemma plot_rows_frame_noplot:
  "plot_rows fh f out True rows df w = (Inr df', w') \<Longrightarrow> df' = df"
  by (induction rows arbitrary: w) (auto simp: Let_def split: prod.splits sum.splits)

lemma plot_rows_frame_assigned:
  "plot_rows fh f out False rows (assign_file f df) w = (Inr df', w') \<Longrightarrow> df' = assign_file f df"
  by (induction rows arbitrary: w)
     (auto simp: Let_def assign_file_idem split: prod.splits sum.splits option.splits)

lemma plot_rows_frame_plot:
  "plot_rows fh f out False rows df w = (Inr df', w') \<Longrightarrow> rows \<noteq> [] \<Longrightarrow> df' = assign_file f df"
  by (cases rows)
     (auto simp: Let_def split: prod.splits sum.splits option.splits dest: plot_rows_frame_assigned)

lemma search_events_indep:
  "fst (search_events L f om out np rv w1) = fst (search_events L f om out np rv w2)"
proof (cases "compute_matches L f om rv")
  case (Inl e)
  then show ?thesis by (simp add: search_events_def)
next
  case (Inr x)
  show ?thesis
  proof (cases x)
    case None
    with Inr show ?thesis by (simp add: search_events_def)
  next
    case (Some y)
    obtain fh ms ig where y: "y = (fh, ms, ig)" by (cases y) auto
    have "fst (plot_rows fh f out np ms (frame_of ms) w1)
        = fst (plot_rows fh f out np ms (frame_of ms) w2)"
      by (rule plot_rows_result_indep)
    with Inr Some y show ?thesis
      by (auto simp: search_events_def split: prod.splits sum.splits)
  qed
qed


lemma csv_written_emit: "csv_written (emit es w) = csv_written w @ concat (map csv_of es)"
  by (simp add: csv_written_def emit_def)

lemma tables_printed_emit: "tables_printed (emit es w) = tables_printed w @ concat (map table_of es)"
  by (simp add: tables_printed_def emit_def)

lemma csv_written_figs [simp]: "csv_written (w\<lparr>open_figures := n\<rparr>) = csv_written w"
  by (simp add: csv_written_def)

lemma tables_printed_figs [simp]: "tables_printed (w\<lparr>open_figures := n\<rparr>) = tables_printed w"
  by (simp add: tables_printed_def)

lemma plot_rows_outputs:
  "plot_rows fh f out np rows df w = (r, w') \<Longrightarrow>
     csv_written w' = csv_written w \<and> tables_printed w' = tables_printed w"
proof (induction rows arbitrary: df w)
  case Nil
  then show ?case by simp
next
  case (Cons a rows)
  then show ?case
    by (fastforce simp: Let_def csv_written_emit tables_printed_emit
          split: prod.splits sum.splits option.splits if_splits)
qed

lemma search_events_outputs:
  "search_events L f om out np rv w = (r, w') \<Longrightarrow>
     csv_written w' = csv_written w \<and> tables_printed w' = tables_printed w"
  by (auto simp: search_events_def split: sum.splits option.splits prod.splits
        dest: plot_rows_outputs)

lemma file_loop_outputs:
  "file_loop L cf np om i fs acc w = (r, w') \<Longrightarrow>
     csv_written w' = csv_written w \<and> tables_printed w' = tables_printed w"
proof (induction fs arbitrary: i acc w)
  case Nil
  then show ?case by simp
next
  case (Cons f fs)
  obtain r1 w1 where s: "search_events L f om (Some (PLOT_OUTPUT cf)) np (REVERSE_EFFECT cf)
       (emit [Print_processing (i + 1) (length (DMSP_FILES cf)) f] w) = (r1, w1)"
    by (cases "search_events L f om (Some (PLOT_OUTPUT cf)) np (REVERSE_EFFECT cf)
       (emit [Print_processing (i + 1) (length (DMSP_FILES cf)) f] w)") auto
  have o: "csv_written w1 = csv_written w \<and> tables_printed w1 = tables_printed w"
    using search_events_outputs [OF s] by (simp add: csv_written_emit tables_printed_emit)
  show ?case
  proof (cases r1)
    case (Inl e)
    with Cons.prems s o show ?thesis by simp
  next
    case (Inr d)
    with Cons.prems s have "file_loop L cf np om (i + 1) fs (acc @ [d]) w1 = (r, w')" by simp
    from Cons.IH [OF this] o show ?thesis by simp
  qed
qed

text \<open>The per-file return values, computed in any world.\<close>

lemma file_loop_results:
  "file_loop L cf np om i fs acc w = (Inr rs, w') \<Longrightarrow>
     map Inr rs = map Inr acc @
       map (\<lambda>f. fst (search_events L f om (Some (PLOT_OUTPUT cf)) np (REVERSE_EFFECT cf) w0)) fs"
proof (induction fs arbitrary: i acc w)
  case Nil
  then show ?case by simp
next
  case (Cons f fs)
  let ?w = "emit [Print_processing (i + 1) (length (DMSP_FILES cf)) f] w"
  obtain r1 w1 where s: "search_events L f om (Some (PLOT_OUTPUT cf)) np (REVERSE_EFFECT cf) ?w = (r1, w1)"
    by (cases "search_events L f om (Some (PLOT_OUTPUT cf)) np (REVERSE_EFFECT cf) ?w") auto
  have r1: "fst (search_events L f om (Some (PLOT_OUTPUT cf)) np (REVERSE_EFFECT cf) w0) = r1"
    using search_events_indep [of L f om "Some (PLOT_OUTPUT cf)" np "REVERSE_EFFECT cf" w0 ?w] s
    by simp
  show ?case
  proof (cases r1)
    case (Inl e)
    with Cons.prems s show ?thesis by simp
  next
    case (Inr d)
    with Cons.prems s have "file_loop L cf np om (i + 1) fs (acc @ [d]) w1 = (Inr rs, w')" by simp
    from Cons.IH [OF this] r1 Inr show ?thesis by simp
  qed
qed

lemma file_loop_returns:
  "map (\<lambda>f. fst (search_events L f om (Some (PLOT_OUTPUT cf)) np (REVERSE_EFFECT cf) w0)) fs
      = map Inr ds \<Longrightarrow>
   fst (file_loop L cf np om i fs acc w) = Inr (acc @ ds)"
proof (induction fs arbitrary: i acc w ds)
  case Nil
  then show ?case by simp
next
  case (Cons f fs)
  let ?w = "emit [Print_processing (i + 1) (length (DMSP_FILES cf)) f] w"
  from Cons.prems obtain d ds' where ds: "ds = d # ds'"
    and d: "fst (search_events L f om (Some (PLOT_OUTPUT cf)) np (REVERSE_EFFECT cf) w0) = Inr d"
    and r: "map (\<lambda>f. fst (search_events L f om (Some (PLOT_OUTPUT cf)) np (REVERSE_EFFECT cf) w0)) fs
      = map Inr ds'"
    by (cases ds) auto
  have "fst (search_events L f om (Some (PLOT_OUTPUT cf)) np (REVERSE_EFFECT cf) ?w) = Inr d"
    using search_events_indep [of L f om "Some (PLOT_OUTPUT cf)" np "REVERSE_EFFECT cf" ?w w0] d
    by simp
  then obtain w1 where
    s: "search_events L f om (Some (PLOT_OUTPUT cf)) np (REVERSE_EFFECT cf) ?w = (Inr d, w1)"
    by (cases "search_events L f om (Some (PLOT_OUTPUT cf)) np (REVERSE_EFFECT cf) ?w") auto
  from Cons.IH [OF r, of "i + 1" "acc @ [d]" w1] s ds show ?case by simp
qed


lemma search_events_CDFError:
  "read_dmsp_file L f = Inl CDFError \<Longrightarrow> search_events L f om out np rv w = (Inr None, w)"
  by (simp add: search_events_def compute_matches_def)


lemma frames_of_replicate_None: "frames_of (replicate n None) = []"
  by (induction n) simp_all

lemma search_events_frame:
  assumes "search_events L f om out np rv w = (Inr (Some df), w')"
  shows "\<exists>fh ms ig. compute_matches L f om rv = Inr (Some (fh, ms, ig))
          \<and> df = (if np \<or> ms = [] then frame_of ms else assign_file f (frame_of ms))"
proof -
  from assms obtain fh ms ig where c: "compute_matches L f om rv = Inr (Some (fh, ms, ig))"
    by (auto simp: search_events_def split: sum.splits option.splits prod.splits)
  with assms have p: "plot_rows fh f out np ms (frame_of ms) w = (Inr df, w')"
    by (auto simp: search_events_def split: sum.splits option.splits prod.splits)
  have "df = (if np \<or> ms = [] then frame_of ms else assign_file f (frame_of ms))"
  proof (cases np)
    case True
    with p show ?thesis by (auto dest: plot_rows_frame_noplot)
  next
    case False
    with p show ?thesis by (cases "ms = []") (auto dest: plot_rows_frame_plot)
  qed
  with c show ?thesis by blast
qed


lemma estimate_demo:
  "estimate_spec config_demo fh_demo = Inr (d_demo, [0, 1, 1, 1, 0, 1, 1, 1])"
  by (simp add: estimate_spec_def config_demo_def fh_demo_def difference_kernel_def d_demo_def)

lemma integrand_demo:
  "build_integrand config_demo 10 Forward om_demo
     (zip (fh_t fh_demo) (zip d_demo [0, 1, 1, 1, 0, 1, 1, 1])) = Inr d_demo"
  by (simp add: fh_demo_def om_demo_def sample_demo_def field_at_def field_vector_def
      polarity_condition_def config_demo_def d_demo_def)

lemma walk_demo:
  "walk_series config_demo 20 Forward (zip (fh_t fh_demo) d_demo) = [(0, 2), (5, 7)]"
  by (simp add: walk_series_def fh_demo_def config_demo_def direction_def close_interval_def
      Let_def d_demo_def)

lemma summarize_demo: "summarize_all om_demo (fh_t fh_demo) [(0, 2), (5, 7)] = Inr ms_demo"
  by (simp add: summarize_def mean_over_def om_demo_def sample_demo_def fh_demo_def ms_demo_def)

lemma walk_and_integrate_demo:
  "walk_and_integrate_spec config_demo 10 fh_demo om_demo d_demo [0, 1, 1, 1, 0, 1, 1, 1] 20 False
     = Inr (ms_demo, d_demo)"
  by (simp add: walk_and_integrate_spec_def polarity_of_def integrand_demo walk_demo
      summarize_demo del: summarize_all.simps)

lemma compute_demo:
  "compute_matches (lib_demo om_demo) ''a.cdf'' om_demo False
     = Inr (Some (fh_demo, ms_demo, d_demo))"
  by (simp add: compute_matches_def lib_demo_def engine_lib_def read_demo_def estimate_demo
      walk_and_integrate_demo)

lemma plot_windows_demo:
  "plot_window (fh_t fh_demo) 0 20 = (0, 3)" "plot_window (fh_t fh_demo) 50 70 = (4, 7)"
  by (simp_all add: fh_demo_def plot_window_def searchsorted_def half_trunc_def)

lemma mlat_demo:
  "py_index (fh_mlat fh_demo) 0 = Inr 60" "py_index (fh_mlat fh_demo) 3 = Inr 63"
  "py_index (fh_mlat fh_demo) 4 = Inr 64" "py_index (fh_mlat fh_demo) 7 = Inr 67"
  by (simp_all add: fh_demo_def py_index_def)

lemma search_demo_quiet:
  "fst (search_events (lib_demo om_demo) ''a.cdf'' om_demo out True False w)
     = Inr (Some (frame_of ms_demo))"
  by (simp add: search_events_def compute_demo ms_demo_def plot_windows_demo mlat_demo
      Let_def)


lemma read_demo_bad: "read_dmsp_file (lib_demo om) ''bad.cdf'' = Inl CDFError"
  by (simp add: lib_demo_def engine_lib_def read_demo_def)


text \<open>
  Claim C9. When \<^verbatim>\<open>search_events\<close> returns a table, its rows carry exactly the match
  records that \<^verbatim>\<open>walk_and_integrate\<close> returned, in their order, so the plotting loop
  changes no other column; the table has the \<^verbatim>\<open>'file'\<close> column exactly when plotting is
  enabled and there is at least one match. With \<^verbatim>\<open>no_plots\<close> set, and for a file with no
  match, there is no \<^verbatim>\<open>'file'\<close> column and no row has a value in it.
\<close>

theorem file_column_only_when_plotted:
  assumes "search_events L f om out np rv w = (Inr (Some df), w')"
  shows "\<exists>fh ms ig. compute_matches L f om rv = Inr (Some (fh, ms, ig))
          \<and> map row_rec (df_rows df) = ms
          \<and> has_file df = (\<not> np \<and> ms \<noteq> [])
          \<and> map file_val (df_rows df) = map (\<lambda>m. if np then None else Some f) ms"
proof -
  from search_events_frame [OF assms] obtain fh ms ig where
    c: "compute_matches L f om rv = Inr (Some (fh, ms, ig))" and
    d: "df = (if np \<or> ms = [] then frame_of ms else assign_file f (frame_of ms))"
    by blast
  have "map row_rec (df_rows df) = ms"
    using d by (simp add: frame_of_def assign_file_def comp_def)
  moreover have "has_file df = (\<not> np \<and> ms \<noteq> [])"
    using d by (simp add: frame_of_def assign_file_def)
  moreover have "map file_val (df_rows df) = map (\<lambda>m. if np then None else Some f) ms"
    using d by (auto simp: frame_of_def assign_file_def comp_def)
  ultimately show ?thesis using c by blast
qed

theorem file_column_only_when_plotted_witness:
  "fst (search_events (lib_demo om_demo) ''a.cdf'' om_demo (Some ''plots'') True False world_demo)
     = Inr (Some (frame_of ms_demo))
   \<and> map row_rec (df_rows (frame_of ms_demo)) = ms_demo
   \<and> \<not> has_file (frame_of ms_demo)
   \<and> map file_val (df_rows (frame_of ms_demo)) = [None, None]"
proof -
  let ?run = "search_events (lib_demo om_demo) ''a.cdf'' om_demo (Some ''plots'') True False world_demo"
  have r: "?run = (Inr (Some (frame_of ms_demo)), snd ?run)"
    using search_demo_quiet [of "Some ''plots''" world_demo] by (metis prod.collapse)
  from file_column_only_when_plotted [OF r] compute_demo
  have "map row_rec (df_rows (frame_of ms_demo)) = ms_demo
      \<and> has_file (frame_of ms_demo) = (\<not> True \<and> ms_demo \<noteq> [])
      \<and> map file_val (df_rows (frame_of ms_demo)) = map (\<lambda>m. if True then None else Some ''a.cdf'') ms_demo"
    by auto
  then show ?thesis using search_demo_quiet [of "Some ''plots''" world_demo]
    by (simp add: ms_demo_def)
qed







text \<open>
  Claim C8. A call in which \<^verbatim>\<open>read_dmsp_file\<close> raises \<^verbatim>\<open>CDFError\<close> returns \<open>None\<close>,
  which is not the empty table. When every DMSP file of a run fails in this way, the
  list handed to \<^verbatim>\<open>pd.concat\<close> holds only \<open>None\<close>, \<^verbatim>\<open>pd.concat\<close> raises ValueError, and
  \<^verbatim>\<open>main\<close> ends with that exception without printing the table or writing the CSV file.
\<close>

theorem failed_file_is_None_and_all_failed_raises:
  "(read_dmsp_file L f = Inl CDFError \<longrightarrow>
      search_events L f om' out np' rv w0 = (Inr None, w0) \<and> None \<noteq> Some (frame_of []))
   \<and> (read_omniweb_files L (OMNIWEB_FILES cf) = Inr om
        \<and> (\<forall>g \<in> set (DMSP_FILES cf). read_dmsp_file L g = Inl CDFError) \<longrightarrow>
      fst (file_loop L cf np om 0 (DMSP_FILES cf) [] w)
        = Inr (replicate (length (DMSP_FILES cf)) None)
      \<and> pd_concat (replicate (length (DMSP_FILES cf)) None) = Inl ValueError
      \<and> fst (main L cf np w) = Inl ValueError
      \<and> csv_written (snd (main L cf np w)) = csv_written w
      \<and> tables_printed (snd (main L cf np w)) = tables_printed w)"
proof (intro conjI impI)
  assume "read_dmsp_file L f = Inl CDFError"
  then show "search_events L f om' out np' rv w0 = (Inr None, w0)"
    by (rule search_events_CDFError)
next
  show "None \<noteq> Some (frame_of [])" by simp
next
  assume h: "read_omniweb_files L (OMNIWEB_FILES cf) = Inr om
        \<and> (\<forall>g \<in> set (DMSP_FILES cf). read_dmsp_file L g = Inl CDFError)"
  let ?n = "length (DMSP_FILES cf)"
  have "map (\<lambda>f. fst (search_events L f om (Some (PLOT_OUTPUT cf)) np (REVERSE_EFFECT cf) w))
          (DMSP_FILES cf) = map Inr (replicate ?n None)"
    using h by (auto simp: search_events_CDFError map_replicate_const intro!: map_idI
         simp flip: map_replicate_const)
  from file_loop_returns [OF this, of 0 "[]" w]
  show l: "fst (file_loop L cf np om 0 (DMSP_FILES cf) [] w) = Inr (replicate ?n None)"
    by simp
  show c: "pd_concat (replicate ?n None) = Inl ValueError"
    by (simp add: pd_concat_def frames_of_replicate_None)
  obtain w' where fl: "file_loop L cf np om 0 (DMSP_FILES cf) [] w = (Inr (replicate ?n None), w')"
    using l by (cases "file_loop L cf np om 0 (DMSP_FILES cf) [] w") auto
  have m: "main L cf np w = (Inl ValueError, w')"
    using h fl c by (simp add: main_def)
  show "fst (main L cf np w) = Inl ValueError" using m by simp
  show "csv_written (snd (main L cf np w)) = csv_written w"
    using m file_loop_outputs [OF fl] by simp
  show "tables_printed (snd (main L cf np w)) = tables_printed w"
    using m file_loop_outputs [OF fl] by simp
qed


theorem failed_file_is_None_and_all_failed_raises_witness:
  "read_dmsp_file (lib_demo om_demo) ''bad.cdf'' = Inl CDFError
   \<and> search_events (lib_demo om_demo) ''bad.cdf'' om_demo (Some ''plots'') True False world_demo
       = (Inr None, world_demo)
   \<and> read_omniweb_files (lib_demo om_demo) (OMNIWEB_FILES (case_demo [''bad.cdf'', ''worse.cdf'']))
       = Inr om_demo
   \<and> read_dmsp_file (lib_demo om_demo) ''worse.cdf'' = Inl CDFError
   \<and> fst (main (lib_demo om_demo) (case_demo [''bad.cdf'', ''worse.cdf'']) True world_demo)
       = Inl ValueError
   \<and> csv_written (snd (main (lib_demo om_demo) (case_demo [''bad.cdf'', ''worse.cdf'']) True
        world_demo)) = []"
proof -
  let ?L = "lib_demo om_demo" and ?cf = "case_demo [''bad.cdf'', ''worse.cdf'']"
  have b: "read_dmsp_file ?L ''bad.cdf'' = Inl CDFError"
    and b': "read_dmsp_file ?L ''worse.cdf'' = Inl CDFError"
    by (simp_all add: lib_demo_def engine_lib_def read_demo_def)
  have o: "read_omniweb_files ?L (OMNIWEB_FILES ?cf) = Inr om_demo"
    by (simp add: lib_demo_def engine_lib_def)
  have a: "\<forall>g \<in> set (DMSP_FILES ?cf). read_dmsp_file ?L g = Inl CDFError"
    using b b' by (simp add: case_demo_def)
  have e: "csv_written world_demo = []"
    by (simp add: csv_written_def world_demo_def)
  from failed_file_is_None_and_all_failed_raises
         [of ?L "''bad.cdf''" om_demo "Some ''plots''" True False world_demo ?cf om_demo True
            world_demo] b b' o a e
  show ?thesis by simp
qed

lemma sort_values_rows:
  "mset (df_rows (sort_values_start_time d)) = mset (df_rows d)
   \<and> sorted (map (\<lambda>r. start_time (row_rec r)) (df_rows (sort_values_start_time d)))
   \<and> has_file (sort_values_start_time d) = has_file d"
  by (simp add: sort_values_start_time_def)

lemma main_returns:
  assumes "read_omniweb_files L (OMNIWEB_FILES cf) = Inr om"
    and "map (\<lambda>f. fst (search_events L f om (Some (PLOT_OUTPUT cf)) np (REVERSE_EFFECT cf) w0))
           (DMSP_FILES cf) = map Inr ds"
    and "frames_of ds \<noteq> []"
  shows "fst (main L cf np w) = Inr ()
       \<and> length (csv_written (snd (main L cf np w))) = length (csv_written w) + 1"
proof -
  from file_loop_returns [OF assms(2), of 0 "[]" w]
  obtain w' where fl: "file_loop L cf np om 0 (DMSP_FILES cf) [] w = (Inr ds, w')"
    by (cases "file_loop L cf np om 0 (DMSP_FILES cf) [] w") auto
  obtain d where c: "pd_concat ds = Inr d"
    using assms(3) by (simp add: pd_concat_def)
  have "main L cf np w =
     (Inr (), emit [Print_discovered, Print_table (sort_values_start_time d),
        Print_writing (length (df_rows (sort_values_start_time d))) (EVENT_OUTPUT cf),
        Csv_written (EVENT_OUTPUT cf) (sort_values_start_time d)] w')"
    using assms(1) fl c by (simp add: main_def Let_def)
  then show ?thesis using file_loop_outputs [OF fl] by (simp add: csv_written_emit)
qed


text \<open>
  Claim C2. In every run in which \<^verbatim>\<open>main\<close> returns, the table that is printed and the
  table that is written to the CSV file are one table, written once to the path of the
  case file; its rows are the rows of the per-file results of \<^verbatim>\<open>search_events\<close>, file after
  file (a \<open>None\<close> result has no rows), as a multiset, and they are in the order of
  \<^verbatim>\<open>start_time\<close>.
\<close>

theorem main_writes_sorted_concatenation:
  assumes "main L cf np w = (Inr (), w')"
  shows "\<exists>om rs df. read_omniweb_files L (OMNIWEB_FILES cf) = Inr om
     \<and> map Inr rs = map (\<lambda>f. fst (search_events L f om (Some (PLOT_OUTPUT cf)) np
                               (REVERSE_EFFECT cf) w0)) (DMSP_FILES cf)
     \<and> mset (df_rows df) = mset (concat (map df_rows (frames_of rs)))
     \<and> sorted (map (\<lambda>r. start_time (row_rec r)) (df_rows df))
     \<and> has_file df = list_ex has_file (frames_of rs)
     \<and> csv_written w' = csv_written w @ [(EVENT_OUTPUT cf, df)]
     \<and> tables_printed w' = tables_printed w @ [df]"
proof -
  from assms obtain om where om: "read_omniweb_files L (OMNIWEB_FILES cf) = Inr om"
    by (auto simp: main_def split: sum.splits)
  from assms om obtain rs w1 where
    fl: "file_loop L cf np om 0 (DMSP_FILES cf) [] w = (Inr rs, w1)"
    by (auto simp: main_def split: sum.splits prod.splits)
  from assms om fl obtain d where d: "pd_concat rs = Inr d"
    by (auto simp: main_def split: sum.splits)
  let ?df = "sort_values_start_time d"
  have w': "w' = emit [Print_discovered, Print_table ?df,
        Print_writing (length (df_rows ?df)) (EVENT_OUTPUT cf),
        Csv_written (EVENT_OUTPUT cf) ?df] w1"
    using assms om fl d by (simp add: main_def Let_def)
  have dd: "df_rows d = concat (map df_rows (frames_of rs))"
       "has_file d = list_ex has_file (frames_of rs)"
    using d by (auto simp: pd_concat_def split: if_splits)
  have "map Inr rs = map (\<lambda>f. fst (search_events L f om (Some (PLOT_OUTPUT cf)) np
                               (REVERSE_EFFECT cf) w0)) (DMSP_FILES cf)"
    using file_loop_results [OF fl, of w0] by simp
  moreover have "mset (df_rows ?df) = mset (concat (map df_rows (frames_of rs)))"
    using sort_values_rows [of d] dd by simp
  moreover have "sorted (map (\<lambda>r. start_time (row_rec r)) (df_rows ?df))"
    using sort_values_rows [of d] by simp
  moreover have "has_file ?df = list_ex has_file (frames_of rs)"
    using sort_values_rows [of d] dd by simp
  moreover have "csv_written w' = csv_written w @ [(EVENT_OUTPUT cf, ?df)]"
    using w' file_loop_outputs [OF fl] by (simp add: csv_written_emit)
  moreover have "tables_printed w' = tables_printed w @ [?df]"
    using w' file_loop_outputs [OF fl] by (simp add: tables_printed_emit)
  ultimately show ?thesis using om by blast
qed

lemma demo_results:
  "map (\<lambda>f. fst (search_events (lib_demo om_demo) f om_demo
             (Some (PLOT_OUTPUT (case_demo fs))) True (REVERSE_EFFECT (case_demo fs)) w0))
       [''a.cdf'', ''bad.cdf'', ''a.cdf'']
     = map Inr [Some (frame_of ms_demo), None, Some (frame_of ms_demo)]"
  by (simp add: case_demo_def search_demo_quiet search_events_CDFError read_demo_bad)

theorem main_writes_sorted_concatenation_witness:
  "fst (main (lib_demo om_demo) (case_demo [''a.cdf'', ''bad.cdf'', ''a.cdf'']) True world_demo)
     = Inr ()
   \<and> (\<exists>df. mset (df_rows df) = mset (df_rows (frame_of ms_demo) @ df_rows (frame_of ms_demo))
          \<and> sorted (map (\<lambda>r. start_time (row_rec r)) (df_rows df))
          \<and> \<not> has_file df
          \<and> csv_written (snd (main (lib_demo om_demo)
                (case_demo [''a.cdf'', ''bad.cdf'', ''a.cdf'']) True world_demo))
              = [(''events.csv'', df)])"
proof -
  let ?L = "lib_demo om_demo" and ?cf = "case_demo [''a.cdf'', ''bad.cdf'', ''a.cdf'']"
  let ?m = "main ?L ?cf True world_demo"
  have o: "read_omniweb_files ?L (OMNIWEB_FILES ?cf) = Inr om_demo"
    by (simp add: lib_demo_def engine_lib_def)
  have f: "DMSP_FILES ?cf = [''a.cdf'', ''bad.cdf'', ''a.cdf'']"
    by (simp add: case_demo_def)
  have r: "fst ?m = Inr ()"
    using main_returns [OF o, of True world_demo
        "[Some (frame_of ms_demo), None, Some (frame_of ms_demo)]" world_demo]
      demo_results [of "[''a.cdf'', ''bad.cdf'', ''a.cdf'']" world_demo] f
    by simp
  then have m: "?m = (Inr (), snd ?m)" by (metis prod.collapse)
  from main_writes_sorted_concatenation [OF m, of world_demo] obtain om rs df where
    c: "read_omniweb_files ?L (OMNIWEB_FILES ?cf) = Inr om"
       "map Inr rs = map (\<lambda>f. fst (search_events ?L f om (Some (PLOT_OUTPUT ?cf)) True
                               (REVERSE_EFFECT ?cf) world_demo)) (DMSP_FILES ?cf)"
       "mset (df_rows df) = mset (concat (map df_rows (frames_of rs)))"
       "sorted (map (\<lambda>r. start_time (row_rec r)) (df_rows df))"
       "has_file df = list_ex has_file (frames_of rs)"
       "csv_written (snd ?m) = csv_written world_demo @ [(EVENT_OUTPUT ?cf, df)]"
    by blast
  have "om = om_demo" using c(1) o by simp
  with c(2) f demo_results [of "[''a.cdf'', ''bad.cdf'', ''a.cdf'']" world_demo]
  have "map Inr rs = (map Inr [Some (frame_of ms_demo), None, Some (frame_of ms_demo)]
          :: (exn + dataframe option) list)"
    by simp
  then have rs: "rs = [Some (frame_of ms_demo), None, Some (frame_of ms_demo)]"
    by (auto simp: map_eq_Cons_conv)
  have "mset (df_rows df) = mset (df_rows (frame_of ms_demo) @ df_rows (frame_of ms_demo))"
    using c(3) rs by simp
  moreover have "\<not> has_file df" using c(5) rs by (simp add: frame_of_def)
  moreover have "csv_written (snd ?m) = [(''events.csv'', df)]"
    using c(6) by (simp add: csv_written_def world_demo_def case_demo_def)
  ultimately show ?thesis using r c(4) by blast
qed

subsection \<open>Failures of single files\<close>








subsection \<open>The plot window is in bounds\<close>

lemma searchsorted_le_length: "searchsorted ts v \<le> length ts"
  by (simp add: searchsorted_def length_takeWhile_le)

lemma searchsorted_mono: "a \<le> b \<Longrightarrow> searchsorted ts a \<le> searchsorted ts b"
  unfolding searchsorted_def
  by (induction ts) auto

lemma searchsorted_below_last:
  "ts \<noteq> [] \<Longrightarrow> v \<le> last ts \<Longrightarrow> searchsorted ts v < length ts"
  unfolding searchsorted_def
  by (induction ts) (auto split: if_splits)

lemma half_trunc_nonneg: "0 \<le> d \<Longrightarrow> 0 \<le> half_trunc d \<and> half_trunc d \<le> d"
  by (simp add: half_trunc_def)

lemma py_index_in_range:
  "0 \<le> i \<Longrightarrow> i < int (length xs) \<Longrightarrow> py_index xs i = Inr (xs ! nat i)"
  by (simp add: py_index_def)

text \<open>
  Claim C10. Take a match row that satisfies the invariant of a match record (its start
  time is before its end time) and whose two times lie strictly inside the range of the
  file's timestamps, in a file whose timestamps are sorted and whose latitude array is
  as long as the timestamp array. Then both \<^verbatim>\<open>searchsorted\<close> results are less than the
  length, and the widened and clamped window \<open>(i, j)\<close> satisfies
  \<open>0 \<le> i \<le> j \<le> size - 1\<close>, so that \<^verbatim>\<open>mlat[i]\<close> and \<^verbatim>\<open>mlat[j]\<close> do not raise and
  the slices \<^verbatim>\<open>[i:j]\<close> lie inside the arrays.
\<close>

theorem plot_window_in_bounds:
  assumes "sorted (fh_t fh)" and "fh_t fh \<noteq> []"
    and "length (fh_mlat fh) = length (fh_t fh)"
    and "hd (fh_t fh) < start_time r" and "start_time r < last (fh_t fh)"
    and "hd (fh_t fh) < end_time r" and "end_time r < last (fh_t fh)"
    and "start_time r < end_time r"
    and "plot_window (fh_t fh) (start_time r) (end_time r) = (i, j)"
  shows "searchsorted (fh_t fh) (start_time r) < length (fh_t fh)
       \<and> searchsorted (fh_t fh) (end_time r) < length (fh_t fh)
       \<and> 0 \<le> i \<and> i \<le> j \<and> j \<le> int (length (fh_t fh)) - 1
       \<and> py_index (fh_mlat fh) i = Inr (fh_mlat fh ! nat i)
       \<and> py_index (fh_mlat fh) j = Inr (fh_mlat fh ! nat j)"
proof -
  let ?ts = "fh_t fh"
  let ?a = "int (searchsorted ?ts (start_time r))"
  let ?b = "int (searchsorted ?ts (end_time r))"
  let ?d = "half_trunc (?b - ?a)"
  have a: "searchsorted ?ts (start_time r) < length ?ts"
    using assms(2,5) by (simp add: searchsorted_below_last)
  have b: "searchsorted ?ts (end_time r) < length ?ts"
    using assms(2,7) by (simp add: searchsorted_below_last)
  have ab: "?a \<le> ?b"
    using assms(8) searchsorted_mono [of "start_time r" "end_time r" ?ts] by simp
  have d: "0 \<le> ?d" "?d \<le> ?b - ?a"
    using ab half_trunc_nonneg [of "?b - ?a"] by simp_all
  have i: "i = max (?a - ?d) 0" and j: "j = min (?b + ?d) (int (length ?ts) - 1)"
    using assms(9) by (simp_all add: plot_window_def Let_def)
  have i0: "0 \<le> i" using i by simp
  have ia: "i \<le> ?a" using i d by simp
  have jb: "?b \<le> j" using j d b by simp
  have jn: "j \<le> int (length ?ts) - 1" using j by simp
  have ij: "i \<le> j" using ia ab jb by linarith
  have pi: "py_index (fh_mlat fh) i = Inr (fh_mlat fh ! nat i)"
    using i0 ia a assms(3) by (intro py_index_in_range) simp_all
  have pj: "py_index (fh_mlat fh) j = Inr (fh_mlat fh ! nat j)"
    using i0 ij jn assms(3) by (intro py_index_in_range) simp_all
  show ?thesis using a b i0 ij jn pi pj by simp
qed

lemma plot_window_demo: "plot_window (fh_t fh_demo) 15 35 = (1, 5)"
  by (simp add: fh_demo_def plot_window_def searchsorted_def half_trunc_def)

theorem plot_window_in_bounds_witness:
  "sorted (fh_t fh_demo) \<and> fh_t fh_demo \<noteq> []
   \<and> length (fh_mlat fh_demo) = length (fh_t fh_demo)
   \<and> hd (fh_t fh_demo) < start_time row_demo \<and> start_time row_demo < last (fh_t fh_demo)
   \<and> hd (fh_t fh_demo) < end_time row_demo \<and> end_time row_demo < last (fh_t fh_demo)
   \<and> start_time row_demo < end_time row_demo
   \<and> plot_window (fh_t fh_demo) (start_time row_demo) (end_time row_demo) = (1, 5)
   \<and> py_index (fh_mlat fh_demo) 1 = Inr 61 \<and> py_index (fh_mlat fh_demo) 5 = Inr 65"
proof -
  have w: "plot_window (fh_t fh_demo) (start_time row_demo) (end_time row_demo) = (1, 5)"
    using plot_window_demo by (simp add: row_demo_def)
  have h: "sorted (fh_t fh_demo)" "fh_t fh_demo \<noteq> []"
    "length (fh_mlat fh_demo) = length (fh_t fh_demo)"
    "hd (fh_t fh_demo) < start_time row_demo" "start_time row_demo < last (fh_t fh_demo)"
    "hd (fh_t fh_demo) < end_time row_demo" "end_time row_demo < last (fh_t fh_demo)"
    "start_time row_demo < end_time row_demo"
    by (simp_all add: fh_demo_def row_demo_def)
  have m: "fh_mlat fh_demo ! nat 1 = 61" "fh_mlat fh_demo ! nat 5 = 65"
    by (simp_all add: fh_demo_def)
  from plot_window_in_bounds [OF h w] m h w show ?thesis by simp
qed

section \<open>Properties of the detection engine\<close>

subsection \<open>Too few samples\<close>

lemma walk_and_integrate_spec_empty:
  "walk_and_integrate_spec c emax fh om [] Eic len rv = Inr ([], [])"
  by (simp add: walk_and_integrate_spec_def walk_series_def)

text \<open>
  Claim C7. When the characteristic-energy series of a file has fewer samples than the
  smoothing window, the derivative estimator returns the empty derivative series, the
  walk over it finds no interval, and \<^verbatim>\<open>search_events\<close> returns the table with no rows,
  raising nothing and leaving the world as it was.
\<close>

theorem short_series_yields_no_events:
  assumes "rd f = Inr fh" and "length (fh_char_energy fh) < smoothing_window c"
  shows "estimate_spec c fh = Inr ([], map (log_energy c) (fh_char_energy fh))
       \<and> walk_and_integrate_spec c emax fh om [] (map (log_energy c) (fh_char_energy fh)) len rv
           = Inr ([], [])
       \<and> search_events (engine_lib c len emax rd ro) f om out np rv w
           = (Inr (Some (frame_of [])), w)"
proof -
  have e: "estimate_spec c fh = Inr ([], map (log_energy c) (fh_char_energy fh))"
    using assms(2) by (simp add: estimate_spec_def)
  have c: "compute_matches (engine_lib c len emax rd ro) f om rv = Inr (Some (fh, [], []))"
    using assms(1) e by (simp add: compute_matches_def engine_lib_def walk_and_integrate_spec_empty)
  have "search_events (engine_lib c len emax rd ro) f om out np rv w
           = (Inr (Some (frame_of [])), w)"
    using c by (simp add: search_events_def)
  with e show ?thesis by (simp add: walk_and_integrate_spec_empty)
qed

theorem short_series_yields_no_events_witness:
  "read_demo ''s.cdf'' = Inr fh_short
   \<and> length (fh_char_energy fh_short) < smoothing_window config_demo
   \<and> estimate_spec config_demo fh_short = Inr ([], [0])
   \<and> search_events (lib_demo om_demo) ''s.cdf'' om_demo (Some ''plots'') False False world_demo
       = (Inr (Some \<lparr>has_file = False, df_rows = []\<rparr>), world_demo)"
proof -
  have r: "read_demo ''s.cdf'' = Inr fh_short" by (simp add: read_demo_def)
  have l: "length (fh_char_energy fh_short) < smoothing_window config_demo"
    by (simp add: fh_short_def config_demo_def)
  have m: "map (log_energy config_demo) (fh_char_energy fh_short) = [0]"
    by (simp add: fh_short_def config_demo_def)
  from short_series_yields_no_events [where rd = read_demo and f = "''s.cdf''" and fh = fh_short
      and c = config_demo and emax = 10 and om = om_demo and len = 20 and rv = False
      and ro = "\<lambda>fs. Inr om_demo" and out = "Some ''plots''" and np = False and w = world_demo]
    r l m
  show ?thesis by (simp add: lib_demo_def frame_of_def)
qed

subsection \<open>Matches of one file are disjoint and ordered\<close>

lemma within_Nil [simp]: "intervals_within lo hi []"
  by (simp add: intervals_within_def)

lemma within_mono: "intervals_within lo hi ivs \<Longrightarrow> lo' \<le> lo \<Longrightarrow> intervals_within lo' hi ivs"
  by (auto simp: intervals_within_def list_all_iff)

lemma within_close:
  "s < k \<Longrightarrow> intervals_within (Suc k) hi ivs \<Longrightarrow> k < hi \<Longrightarrow> intervals_within s hi (close_interval c s k ts te I @ ivs)"
  by (auto simp: intervals_within_def close_interval_def list_all_iff sorted_wrt_append)

lemma within_close_last:
  "s < k \<Longrightarrow> intervals_within s k (close_interval c s (k - 1) ts te I)"
  by (auto simp: intervals_within_def close_interval_def)

lemma walk_within:
  "intervals_within k (k + length xs) (walk c m p IDLE k prev xs)
   \<and> (s < k \<longrightarrow> intervals_within s (k + length xs) (walk c m p (ACCUMULATING s ts I n) k prev xs))"
proof (induction xs arbitrary: k prev s ts I n)
  case Nil
  show ?case using within_close_last [of s k c ts prev I] by simp
next
  case (Cons x xs)
  obtain t v where x: "x = (t, v)" by (cases x)
  have idle: "intervals_within (Suc k) (Suc k + length xs) (walk c m p IDLE (Suc k) t xs)"
    using Cons.IH [where k = "Suc k" and prev = t] by simp
  have acc: "\<And>s' ts' I' n'. s' < Suc k \<Longrightarrow>
      intervals_within s' (Suc k + length xs) (walk c m p (ACCUMULATING s' ts' I' n') (Suc k) t xs)"
    using Cons.IH [where k = "Suc k" and prev = t] by simp
  have 1: "intervals_within k (k + length (x # xs)) (walk c m p IDLE k prev (x # xs))"
    using idle acc [of k] x by (auto intro: within_mono)
  have 2: "intervals_within s (k + length (x # xs)) (walk c m p (ACCUMULATING s ts I n) k prev (x # xs))"
    if "s < k"
  proof -
    have "intervals_within s (Suc k + length xs) (close_interval c s k ts t I' @ walk c m p IDLE (Suc k) t xs)"
      for I'
      using that idle by (intro within_close) simp_all
    moreover have "intervals_within s (Suc k + length xs) (walk c m p (ACCUMULATING s ts I' n') (Suc k) t xs)"
      for I' n'
      using that by (intro acc) simp
    ultimately show ?thesis using x by (simp add: Let_def)
  qed
  from 1 2 show ?case by blast
qed

lemma walk_series_within: "intervals_within 0 (length xs) (walk_series c m p xs)"
proof (cases xs)
  case Nil
  then show ?thesis by (simp add: walk_series_def)
next
  case (Cons x xs')
  obtain t v where "x = (t, v)" by (cases x)
  with Cons walk_within [of 0 xs c m p t] show ?thesis
    by (simp add: walk_series_def)
qed

lemma summarize_times:
  "summarize om ts iv = Inr m \<Longrightarrow> start_time m = ts ! fst iv \<and> end_time m = ts ! snd iv"
  by (auto simp: summarize_def split: sum.splits prod.splits)

lemma summarize_all_times:
  "summarize_all om ts ivs = Inr ms \<Longrightarrow>
     map (\<lambda>m. (start_time m, end_time m)) ms = map (\<lambda>iv. (ts ! fst iv, ts ! snd iv)) ivs"
proof (induction ivs arbitrary: ms)
  case Nil
  then show ?case by simp
next
  case (Cons iv ivs)
  then show ?case
    by (auto split: sum.splits dest: summarize_times)
qed

lemma within_times:
  assumes "intervals_within 0 hi ivs" and "hi \<le> length ts" and "sorted_wrt (<) ts"
  shows "sorted_wrt (\<lambda>a b. snd a < fst b) (map (\<lambda>iv. (ts ! fst iv, ts ! snd iv)) ivs)
       \<and> list_all (\<lambda>x. fst x < snd x) (map (\<lambda>iv. (ts ! fst iv, ts ! snd iv)) ivs)"
proof -
  have b: "\<And>iv. iv \<in> set ivs \<Longrightarrow> fst iv < snd iv \<and> snd iv < length ts"
    using assms(1,2) by (auto simp: intervals_within_def list_all_iff)
  have lt: "\<And>i j. i < j \<Longrightarrow> j < length ts \<Longrightarrow> ts ! i < ts ! j"
    using assms(3) by (simp add: sorted_wrt_nth_less)
  have m: "ts ! snd x < ts ! fst y" if "x \<in> set ivs" "y \<in> set ivs" "snd x < fst y" for x y
  proof -
    have "fst y < length ts" using b [OF that(2)] by simp
    with that(3) show ?thesis by (rule lt)
  qed
  have "sorted_wrt (\<lambda>a b. snd a < fst b) ivs"
    using assms(1) by (simp add: intervals_within_def)
  then have "sorted_wrt (\<lambda>a b. ts ! snd a < ts ! fst b) ivs"
    by (rule sorted_wrt_mono_rel [rotated]) (use m in blast)
  moreover have "list_all (\<lambda>iv. ts ! fst iv < ts ! snd iv) ivs"
    using b lt by (auto simp: list_all_iff)
  ultimately show ?thesis by (simp add: sorted_wrt_map list_all_iff)
qed


lemma walk_and_integrate_spec_ordered:
  assumes "walk_and_integrate_spec c emax fh om d Eic len rv = Inr (ms, ig)"
    and "sorted_wrt (<) (fh_t fh)"
  shows "sorted_wrt (\<lambda>a b. end_time a < start_time b) ms
       \<and> list_all (\<lambda>m. start_time m < end_time m) ms"
proof -
  let ?p = "polarity_of rv"
  from assms(1) obtain ig' where
    s: "summarize_all om (fh_t fh) (walk_series c len ?p (zip (fh_t fh) ig')) = Inr ms"
    by (auto simp: walk_and_integrate_spec_def split: sum.splits)
  let ?ivs = "walk_series c len ?p (zip (fh_t fh) ig')"
  have w: "intervals_within 0 (length (zip (fh_t fh) ig')) ?ivs"
    by (rule walk_series_within)
  have "length (zip (fh_t fh) ig') \<le> length (fh_t fh)" by simp
  from within_times [OF w this assms(2)] summarize_all_times [OF s]
  have "sorted_wrt (\<lambda>a b. snd a < fst b) (map (\<lambda>m. (start_time m, end_time m)) ms)
      \<and> list_all (\<lambda>x. fst x < snd x) (map (\<lambda>m. (start_time m, end_time m)) ms)"
    by simp
  then show ?thesis by (simp add: sorted_wrt_map list_all_iff)
qed

lemma disjoint_sorted_start:
  assumes "sorted_wrt (\<lambda>a b. end_time a < start_time b) ms"
    and "list_all (\<lambda>m. start_time m < end_time m) ms"
  shows "sorted (map start_time ms)"
proof -
  have "sorted_wrt (\<lambda>a b. start_time a \<le> start_time b) ms"
    using assms(1)
    by (rule sorted_wrt_mono_rel [rotated]) (use assms(2) in \<open>fastforce simp: list_all_iff\<close>)
  then show ?thesis by (simp add: sorted_map)
qed

text \<open>
  Claim C1. For a file whose timestamps are strictly increasing, the rows of the table
  that \<^verbatim>\<open>search_events\<close> returns are pairwise disjoint in time and in the order of their
  start times: of two rows the earlier one ends strictly before the later one starts,
  and every row starts strictly before it ends. The intervals of the walker, by index,
  are disjoint and ordered in the same way for every series of samples, and lie inside
  the series.
\<close>

theorem matches_disjoint_and_ordered:
  assumes "rd f = Inr fh" and "sorted_wrt (<) (fh_t fh)"
    and "search_events (engine_lib c len emax rd ro) f om out np rv w = (Inr (Some df), w')"
  shows "sorted_wrt (\<lambda>a b. end_time (row_rec a) < start_time (row_rec b)) (df_rows df)
       \<and> list_all (\<lambda>r. start_time (row_rec r) < end_time (row_rec r)) (df_rows df)
       \<and> sorted (map (\<lambda>r. start_time (row_rec r)) (df_rows df))
       \<and> sorted_wrt (\<lambda>a b. snd a < fst b) (walk_series c len p xs)
       \<and> list_all (\<lambda>iv. fst iv < snd iv \<and> snd iv < length xs) (walk_series c len p xs)"
proof -
  from search_events_frame [OF assms(3)] obtain fh' ms ig where
    c: "compute_matches (engine_lib c len emax rd ro) f om rv = Inr (Some (fh', ms, ig))" and
    d: "df = (if np \<or> ms = [] then frame_of ms else assign_file f (frame_of ms))"
    by blast
  have rows: "map row_rec (df_rows df) = ms"
    using d by (simp add: frame_of_def assign_file_def comp_def)
  from c assms(1) obtain dd Eic where
    "walk_and_integrate_spec c emax fh om dd Eic len rv = Inr (ms, ig)"
    by (auto simp: compute_matches_def engine_lib_def split: sum.splits prod.splits)
  from walk_and_integrate_spec_ordered [OF this assms(2)]
  have m: "sorted_wrt (\<lambda>a b. end_time a < start_time b) (map row_rec (df_rows df))"
    "list_all (\<lambda>m. start_time m < end_time m) (map row_rec (df_rows df))"
    using rows by simp_all
  have s: "sorted (map start_time (map row_rec (df_rows df)))"
    using m by (rule disjoint_sorted_start)
  have i: "intervals_within 0 (length xs) (walk_series c len p xs)"
    by (rule walk_series_within)
  show ?thesis
    using m s i by (simp add: sorted_wrt_map list_all_iff comp_def intervals_within_def)
qed

theorem matches_disjoint_and_ordered_witness:
  "read_demo ''a.cdf'' = Inr fh_demo \<and> sorted_wrt (<) (fh_t fh_demo)
   \<and> fst (search_events (lib_demo om_demo) ''a.cdf'' om_demo (Some ''plots'') True False world_demo)
       = Inr (Some (frame_of ms_demo))
   \<and> map (\<lambda>r. (start_time (row_rec r), end_time (row_rec r))) (df_rows (frame_of ms_demo))
       = [(0, 20), (50, 70)]
   \<and> sorted_wrt (\<lambda>a b. end_time (row_rec a) < start_time (row_rec b)) (df_rows (frame_of ms_demo))
   \<and> sorted (map (\<lambda>r. start_time (row_rec r)) (df_rows (frame_of ms_demo)))
   \<and> walk_series config_demo 20 Forward (zip (fh_t fh_demo) d_demo) = [(0, 2), (5, 7)]"
proof -
  let ?run = "search_events (lib_demo om_demo) ''a.cdf'' om_demo (Some ''plots'') True False
    world_demo"
  have r: "read_demo ''a.cdf'' = Inr fh_demo" by (simp add: read_demo_def)
  have t: "sorted_wrt (<) (fh_t fh_demo)" by (simp add: fh_demo_def)
  have q: "fst ?run = Inr (Some (frame_of ms_demo))" by (rule search_demo_quiet)
  then have e: "search_events (engine_lib config_demo 20 10 read_demo (\<lambda>fs. Inr om_demo)) ''a.cdf''
      om_demo (Some ''plots'') True False world_demo = (Inr (Some (frame_of ms_demo)), snd ?run)"
    unfolding lib_demo_def by (metis prod.collapse)
  have v: "map (\<lambda>r. (start_time (row_rec r), end_time (row_rec r))) (df_rows (frame_of ms_demo))
       = [(0, 20), (50, 70)]"
    by (simp add: frame_of_def ms_demo_def)
  from matches_disjoint_and_ordered [OF r t e] r t q v walk_demo
  show ?thesis by simp
qed

subsection \<open>Polarity symmetry\<close>

lemma fs_t_flip [simp]: "fs_t (flip_sample s) = fs_t s"
  by (simp add: flip_sample_def)

lemma field_vector_flip [simp]: "field_vector (flip_sample s) = flip_vector (field_vector s)"
  by (simp add: flip_sample_def field_vector_def flip_vector_def)

lemma flip_vector_twice [simp]: "flip_vector (flip_vector B) = B"
  by (cases B) (simp add: flip_vector_def)






















end
